theory Spec2Isabelle
  imports Main "HOL-Library.Sublist"
begin

section \<open>Python strings\<close>

text \<open>
  A Python \<open>str\<close> is a sequence of Unicode code points, so it is modelled as a list of
  natural numbers (one per code point), not as a list of bytes. \<open>str\<close> lifts an ASCII
  literal of the source to that type.
\<close>

type_synonym pystr = "nat list"

definition str :: "string \<Rightarrow> pystr" where
  "str s = map of_char s"

text \<open>
  \<open>str.strip()\<close> without argument removes the leading and trailing characters for which
  \<open>str.isspace\<close> holds. CPython decides that with \<open>_PyUnicode_IsWhitespace\<close>: the code
  points 9..13, 28..32, 0x85, 0xA0, 0x1680, 0x2000..0x200A, 0x2028, 0x2029, 0x202F, 0x205F
  and 0x3000.
\<close>

definition isspace :: "nat \<Rightarrow> bool" where
  "isspace c =
     ((9 \<le> c \<and> c \<le> 13) \<or> (28 \<le> c \<and> c \<le> 32) \<or> c = 133 \<or> c = 160 \<or> c = 5760 \<or>
      (8192 \<le> c \<and> c \<le> 8202) \<or> c = 8232 \<or> c = 8233 \<or> c = 8239 \<or> c = 8287 \<or>
      c = 12288)"

definition lstrip :: "pystr \<Rightarrow> pystr" where
  "lstrip s = dropWhile isspace s"

definition rstrip :: "pystr \<Rightarrow> pystr" where
  "rstrip s = rev (dropWhile isspace (rev s))"

definition strip :: "pystr \<Rightarrow> pystr" where
  "strip s = rstrip (lstrip s)"

section \<open>The two regular expressions of the extractor\<close>

text \<open>
  Both patterns of \<open>extract_code_from_response\<close> have the shape
  \<open>OPEN([\s\S]*?)CLOSE\<close> with literal \<open>OPEN\<close> and \<open>CLOSE\<close>. The class \<open>[\s\S]\<close> accepts every
  character, the newline included, and \<open>*?\<close> is lazy: group 1 is extended one character
  at a time until \<open>CLOSE\<close> matches. \<open>lazy_until\<close> is that loop: the shortest group
  after which the closing literal follows, or \<open>None\<close> when it never does.
\<close>

fun lazy_until :: "pystr \<Rightarrow> pystr \<Rightarrow> pystr option" where
  "lazy_until close [] = (if close = [] then Some [] else None)"
| "lazy_until close (c # cs) =
     (if prefix close (c # cs) then Some []
      else map_option ((#) c) (lazy_until close cs))"

text \<open>An attempt to match the whole pattern at the beginning of \<open>s\<close>; the value is group 1.\<close>

definition match_at :: "pystr \<Rightarrow> pystr \<Rightarrow> pystr \<Rightarrow> pystr option" where
  "match_at opn close s =
     (if prefix opn s then lazy_until close (drop (length opn) s) else None)"

text \<open>
  \<open>re.search\<close> tries the start positions from left to right and returns the first match.
  The value is \<open>(m.start(), m.group(1))\<close>.
\<close>

fun re_search :: "pystr \<Rightarrow> pystr \<Rightarrow> pystr \<Rightarrow> (nat \<times> pystr) option" where
  "re_search opn close [] = map_option (Pair 0) (match_at opn close [])"
| "re_search opn close (c # cs) =
     (case match_at opn close (c # cs) of
        Some g \<Rightarrow> Some (0, g)
      | None \<Rightarrow> map_option (\<lambda>(i, g). (Suc i, g)) (re_search opn close cs))"

abbreviation (input) backtick :: nat where
  "backtick \<equiv> 96"

abbreviation (input) newline :: nat where
  "newline \<equiv> 10"

definition html_open :: pystr where
  "html_open = str ''```html\<newline>''"

definition generic_open :: pystr where
  "generic_open = str ''```\<newline>''"

definition fence_close :: pystr where
  "fence_close = str ''\<newline>```''"

section \<open>\<open>AIWebAgent.extract_code_from_response\<close>\<close>

text \<open>The result is the pair \<open>(explanation, code)\<close>, in the order of the source.\<close>

definition extract_code_from_response :: "pystr \<Rightarrow> pystr \<times> pystr" where
  "extract_code_from_response response =
     (case re_search html_open fence_close response of
        Some (start, g1) \<Rightarrow> (strip (take start response), strip g1)
      | None \<Rightarrow>
          (case re_search generic_open fence_close response of
             Some (start, g1) \<Rightarrow> (strip (take start response), strip g1)
           | None \<Rightarrow> (response, [])))"

section \<open>The agent\<close>

text \<open>
  \<open>Message\<close> is the dataclass of the source; \<open>timestamp\<close> is the value of
  \<open>datetime.now()\<close> at creation, a reading of the clock that the model takes as an argument.
\<close>

record Message =
  role :: pystr
  content :: pystr
  timestamp :: nat

text \<open>
  The attributes of \<open>AIWebAgent\<close>. \<open>api_key\<close> is \<open>Optional[str]\<close>. \<open>system_prompt\<close> is assigned
  once, by the constructor, and by no method.
\<close>

record AIWebAgent =
  api_key :: "pystr option"
  conversation_history :: "Message list"
  generated_code :: pystr
  system_prompt :: pystr

text \<open>The dictionary returned by \<open>generate_website\<close>, with its three keys.\<close>

record Result =
  code :: pystr
  explanation :: pystr
  error :: pystr

text \<open>Truth value of an \<open>Optional[str]\<close>: \<open>None\<close> and the empty string are false.\<close>

definition py_bool :: "pystr option \<Rightarrow> bool" where
  "py_bool v = (case v of None \<Rightarrow> False | Some s \<Rightarrow> s \<noteq> [])"

text \<open>The slice \<open>xs[-n:]\<close> for \<open>n \<ge> 0\<close>; \<open>xs[-0:]\<close> is \<open>xs[0:]\<close>, the whole list.\<close>

definition slice_last :: "nat \<Rightarrow> 'a list \<Rightarrow> 'a list" where
  "slice_last n xs = (if n = 0 then xs else drop (length xs - n) xs)"

definition add_message :: "nat \<Rightarrow> pystr \<Rightarrow> pystr \<Rightarrow> AIWebAgent \<Rightarrow> AIWebAgent" where
  "add_message now r c self =
     self\<lparr>conversation_history :=
            conversation_history self @ [\<lparr>role = r, content = c, timestamp = now\<rparr>]\<rparr>"

text \<open>
  The list \<open>messages\<close> built inside the \<open>try\<close> block; a dictionary with the keys \<open>role\<close> and
  \<open>content\<close> is the pair of its two values.
\<close>

definition outbound_messages :: "AIWebAgent \<Rightarrow> (pystr \<times> pystr) list" where
  "outbound_messages self =
     (str ''system'', system_prompt self) #
     map (\<lambda>msg. (role msg, content msg)) (slice_last 10 (conversation_history self))"

text \<open>
  \<open>generate_website\<close>. The coroutine \<open>_call_openai_api\<close> talks to the network, so its outcome
  is the argument \<open>call\<close>: from the credential and the message list to either \<open>Inr\<close> of the
  reply text or \<open>Inl\<close> of \<open>str(e)\<close> for the exception \<open>e\<close> that left the \<open>try\<close> block (transport
  error, error status, unexpected body). \<open>t_user\<close> and \<open>t_reply\<close> are the two readings
  of the clock, one per \<open>add_message\<close>. The value is the returned dictionary and the agent
  after the call; the \<open>print\<close> of the error message writes to the standard output and
  touches neither.
\<close>

definition generate_website ::
  "(pystr option \<Rightarrow> (pystr \<times> pystr) list \<Rightarrow> pystr + pystr) \<Rightarrow> nat \<Rightarrow> nat \<Rightarrow>
   AIWebAgent \<Rightarrow> pystr \<Rightarrow> Result \<times> AIWebAgent" where
  "generate_website call t_user t_reply self user_request =
     (if \<not> py_bool (api_key self) then
        (\<lparr>code = [], explanation = [],
          error = str ''API key not set. Please set your OpenAI API key.''\<rparr>, self)
      else
        let self1 = add_message t_user (str ''user'') user_request self;
            messages = outbound_messages self1
        in case call (api_key self1) messages of
             Inr response_text \<Rightarrow>
               (case extract_code_from_response response_text of
                  (expl, gen) \<Rightarrow>
                    (\<lparr>code = gen, explanation = expl, error = []\<rparr>,
                     add_message t_reply (str ''assistant'') response_text
                       (self1\<lparr>generated_code := gen\<rparr>)))
           | Inl e \<Rightarrow>
               (\<lparr>code = [], explanation = [],
                 error = str ''Error generating website: '' @ e\<rparr>, self1))"

definition clear_history :: "AIWebAgent \<Rightarrow> AIWebAgent" where
  "clear_history self = self\<lparr>conversation_history := [], generated_code := []\<rparr>"

text \<open>A state with a credential and an empty history, for the examples.\<close>

definition agent0 :: AIWebAgent where
  "agent0 = \<lparr>api_key = Some (str ''sk-test''), conversation_history = [],
     generated_code = [], system_prompt = str ''You are an expert web developer''\<rparr>"

text \<open>
  A state whose history already holds ten messages, numbered 0 to 9, and a completion
  call that fails with the text \<open>ok\<close> exactly when it is handed eleven messages of which
  the second is message 1, that is, when message 0 has left the window.
\<close>

definition old_message :: "nat \<Rightarrow> Message" where
  "old_message i = \<lparr>role = str ''user'', content = [i], timestamp = i\<rparr>"

definition agent10 :: AIWebAgent where
  "agent10 = agent0\<lparr>conversation_history := map old_message [0..<10]\<rparr>"

definition echo_call :: "pystr option \<Rightarrow> (pystr \<times> pystr) list \<Rightarrow> pystr + pystr" where
  "echo_call k ms = (if length ms = 11 \<and> snd (ms ! 1) = [1] then Inl (str ''ok'') else Inr [])"

section \<open>Facts about the regular expressions\<close>

lemma lazy_until_None_iff: "lazy_until close x = None \<longleftrightarrow> \<not> sublist close x"
  by (induction x) (auto simp: sublist_Cons_right)

lemma lazy_until_SomeD:
  "lazy_until close x = Some g \<Longrightarrow> \<exists>r. x = g @ close @ r"
proof (induction x arbitrary: g)
  case Nil
  then show ?case by (auto split: if_splits)
next
  case (Cons c cs)
  then show ?case by (fastforce simp: prefix_def split: if_splits)
qed

lemma lazy_until_prefix: "prefix close x \<Longrightarrow> lazy_until close x = Some []"
  by (cases x) auto

lemma lazy_until_first:
  assumes "\<And>d r. prefix close (d @ close @ r) \<Longrightarrow> d = [] \<or> prefix close d"
    and "\<not> sublist close g"
  shows "lazy_until close (g @ close @ r) = Some g"
  using assms(2)
proof (induction g)
  case Nil
  show ?case by (simp add: lazy_until_prefix)
next
  case (Cons c g)
  have "\<not> prefix close ((c # g) @ close @ r)"
    using assms(1)[of "c # g" r] Cons.prems by auto
  moreover have "\<not> sublist close g" using Cons.prems by (auto simp: sublist_Cons_right)
  ultimately show ?case using Cons.IH by simp
qed

lemma re_search_unfold:
  "re_search opn close s =
     (case match_at opn close s of
        Some g \<Rightarrow> Some (0, g)
      | None \<Rightarrow> (case s of [] \<Rightarrow> None
                 | c # cs \<Rightarrow> map_option (\<lambda>(i, g). (Suc i, g)) (re_search opn close cs)))"
  by (cases s) (auto split: option.splits)

lemma re_search_first:
  assumes "\<And>d r. prefix opn (d @ opn @ r) \<Longrightarrow> d = [] \<or> prefix opn d"
    and "\<not> sublist opn a"
    and "lazy_until close rest = Some g"
  shows "re_search opn close (a @ opn @ rest) = Some (length a, g)"
  using assms(2)
proof (induction a)
  case Nil
  have "match_at opn close (opn @ rest) = Some g"
    using assms(3) by (simp add: match_at_def)
  then show ?case by (simp add: re_search_unfold)
next
  case (Cons c a)
  have "\<not> prefix opn ((c # a) @ opn @ rest)"
    using assms(1)[of "c # a" rest] Cons.prems by auto
  then have "match_at opn close ((c # a) @ opn @ rest) = None"
    by (simp add: match_at_def)
  moreover have "\<not> sublist opn a" using Cons.prems by (auto simp: sublist_Cons_right)
  ultimately show ?case using Cons.IH by simp
qed

lemma match_at_None_iff:
  "match_at opn close s = None \<longleftrightarrow> \<not> (\<exists>b c. s = opn @ b @ close @ c)"
proof -
  have "(\<exists>b c. s = opn @ b @ close @ c) \<longleftrightarrow> prefix opn s \<and> sublist close (drop (length opn) s)"
  proof
    assume "\<exists>b c. s = opn @ b @ close @ c"
    then obtain b c where "s = opn @ b @ close @ c" by blast
    then show "prefix opn s \<and> sublist close (drop (length opn) s)" by simp
  next
    assume h: "prefix opn s \<and> sublist close (drop (length opn) s)"
    then obtain t where t: "s = opn @ t" by (auto simp: prefix_def)
    with h have "sublist close t" by simp
    then obtain b c where "t = b @ close @ c" by (auto simp: sublist_def)
    with t show "\<exists>b c. s = opn @ b @ close @ c" by blast
  qed
  then show ?thesis by (simp add: match_at_def lazy_until_None_iff)
qed

lemma re_search_None_iff:
  "re_search opn close s = None \<longleftrightarrow> \<not> (\<exists>a b c. s = a @ opn @ b @ close @ c)"
proof (induction s)
  case Nil
  show ?case using match_at_None_iff[of opn close "[]"] by auto
next
  case (Cons x s)
  have "(\<exists>a b c. x # s = a @ opn @ b @ close @ c) \<longleftrightarrow>
        (\<exists>b c. x # s = opn @ b @ close @ c) \<or> (\<exists>a b c. s = a @ opn @ b @ close @ c)"
    (is "?L \<longleftrightarrow> ?R")
  proof
    assume ?L
    then obtain a b c where e: "x # s = a @ opn @ b @ close @ c" by blast
    show ?R
    proof (cases a)
      case Nil
      then show ?thesis using e by auto
    next
      case (Cons y a')
      then have "s = a' @ opn @ b @ close @ c" using e by simp
      then show ?thesis by blast
    qed
  next
    assume ?R
    then show ?L
    proof
      assume "\<exists>b c. x # s = opn @ b @ close @ c"
      then obtain b c where "x # s = [] @ opn @ b @ close @ c" by auto
      then show ?L by blast
    next
      assume "\<exists>a b c. s = a @ opn @ b @ close @ c"
      then obtain a b c where "x # s = (x # a) @ opn @ b @ close @ c" by auto
      then show ?L by blast
    qed
  qed
  then show ?case using Cons.IH match_at_None_iff[of opn close "x # s"]
    by (auto split: option.splits)
qed

lemma unbordered_first:
  assumes "p = n # q" "n \<notin> set q" "prefix p (d @ p @ r)"
  shows "d = [] \<or> prefix p d"
proof -
  from assms(3) consider "prefix p d" | us where "p = d @ us" "prefix us (p @ r)"
    using prefix_append[of p d "p @ r"] by blast
  then show ?thesis
  proof cases
    case 1
    then show ?thesis by simp
  next
    case 2
    show ?thesis
    proof (cases d)
      case Nil
      then show ?thesis by simp
    next
      case (Cons y d')
      with 2(1) assms(1) have q: "q = d' @ us" by simp
      show ?thesis
      proof (cases us)
        case Nil
        with 2(1) show ?thesis by simp
      next
        case (Cons u us')
        with 2(2) assms(1) have "u = n" by simp
        with Cons q assms(2) show ?thesis by simp
      qed
    qed
  qed
qed

lemma unbordered_last:
  assumes "p = q @ [n]" "n \<notin> set q" "prefix p (d @ p @ r)"
  shows "d = [] \<or> prefix p d"
proof -
  from assms(3) consider "prefix p d" | us where "p = d @ us" "prefix us (p @ r)"
    using prefix_append[of p d "p @ r"] by blast
  then show ?thesis
  proof cases
    case 1
    then show ?thesis by simp
  next
    case 2
    show ?thesis
    proof (cases "us = []")
      case True
      with 2(1) show ?thesis by simp
    next
      case False
      then obtain us' z where us: "us = us' @ [z]" by (metis rev_exhaust)
      with 2(1) assms(1) have z: "z = n" and q: "q = d @ us'" by auto
      from 2(2) us z assms(1) obtain t where t: "q @ n # r = us' @ n # t"
        by (auto simp: prefix_def)
      show ?thesis
      proof (cases d)
        case Nil
        then show ?thesis by simp
      next
        case (Cons y d')
        with q have lt: "length us' < length q" by simp
        have "(q @ n # r) ! length us' = n" by (simp add: t)
        with lt have "q ! length us' = n" by (simp add: nth_append)
        with lt assms(2) show ?thesis by (metis nth_mem)
      qed
    qed
  qed
qed

lemma html_open_unbordered: "prefix html_open (d @ html_open @ r) \<Longrightarrow> d = [] \<or> prefix html_open d"
  by (rule unbordered_last[where q = "str ''```html''" and n = 10]) (simp_all add: html_open_def str_def)

lemma generic_open_unbordered: "prefix generic_open (d @ generic_open @ r) \<Longrightarrow> d = [] \<or> prefix generic_open d"
  by (rule unbordered_last[where q = "str ''```''" and n = 10]) (simp_all add: generic_open_def str_def)

lemma fence_close_unbordered: "prefix fence_close (d @ fence_close @ r) \<Longrightarrow> d = [] \<or> prefix fence_close d"
  by (rule unbordered_first[where q = "str ''```''" and n = 10]) (simp_all add: fence_close_def str_def)

lemma re_search_fence:
  assumes "opn = html_open \<or> opn = generic_open"
    and "\<not> sublist opn a" and "\<not> sublist fence_close b"
  shows "re_search opn fence_close (a @ opn @ b @ fence_close @ c) = Some (length a, b)"
proof -
  have l: "lazy_until fence_close (b @ fence_close @ c) = Some b"
    using fence_close_unbordered assms(3) by (rule lazy_until_first)
  have u: "\<And>d r. prefix opn (d @ opn @ r) \<Longrightarrow> d = [] \<or> prefix opn d"
    using assms(1) html_open_unbordered generic_open_unbordered by blast
  show ?thesis using u assms(2) l by (rule re_search_first)
qed

lemma lstrip_fixed: "s = [] \<or> \<not> isspace (hd s) \<Longrightarrow> lstrip s = s"
  by (cases s) (auto simp: lstrip_def)

lemma rstrip_prefix: "prefix (rstrip s) s"
proof -
  have "rev s = takeWhile isspace (rev s) @ dropWhile isspace (rev s)" by simp
  then have "s = rev (dropWhile isspace (rev s)) @ rev (takeWhile isspace (rev s))"
    by (metis rev_append rev_rev_ident)
  then show ?thesis unfolding rstrip_def by (metis prefixI)
qed

lemma rstrip_rstrip: "rstrip (rstrip s) = rstrip s"
  by (simp add: rstrip_def)

lemma lstrip_rstrip_lstrip: "lstrip (rstrip (lstrip s)) = rstrip (lstrip s)"
proof (cases "rstrip (lstrip s) = []")
  case True
  then show ?thesis by (simp add: lstrip_def)
next
  case False
  from rstrip_prefix[of "lstrip s"] obtain z where z: "lstrip s = rstrip (lstrip s) @ z"
    by (auto simp: prefix_def)
  with False have "hd (rstrip (lstrip s)) = hd (lstrip s)" by (metis hd_append2)
  moreover from z False have "lstrip s \<noteq> []" by auto
  then have "\<not> isspace (hd (lstrip s))" unfolding lstrip_def by (rule hd_dropWhile)
  ultimately show ?thesis by (simp add: lstrip_fixed)
qed

lemma strip_strip: "strip (strip s) = strip s"
  by (simp add: strip_def lstrip_rstrip_lstrip rstrip_rstrip)

lemma sublist_chain: "sublist xs ys \<Longrightarrow> sublist ys zs \<Longrightarrow> sublist xs zs"
  using sublist_order.order.trans by blast

lemma sublist_strip: "sublist (strip s) s"
proof -
  have "sublist (rstrip (lstrip s)) (lstrip s)" using rstrip_prefix by blast
  moreover have "sublist (lstrip s) s" by (simp add: lstrip_def)
  ultimately show ?thesis unfolding strip_def by (rule sublist_chain)
qed

lemma lazy_until_shortest:
  "close \<noteq> [] \<Longrightarrow> lazy_until close x = Some g \<Longrightarrow> \<not> sublist close g"
proof (induction x arbitrary: g)
  case Nil
  then show ?case by simp
next
  case (Cons c cs)
  show ?case
  proof (cases "prefix close (c # cs)")
    case True
    with Cons.prems show ?thesis by simp
  next
    case False
    with Cons.prems obtain g' where g': "g = c # g'" "lazy_until close cs = Some g'"
      by auto
    from lazy_until_SomeD[OF g'(2)] obtain r where r: "cs = g' @ close @ r" by blast
    have "\<not> prefix close (c # g')"
    proof
      assume "prefix close (c # g')"
      then have "prefix close ((c # g') @ close @ r)" using prefix_prefix by blast
      with r False show False by simp
    qed
    moreover have "\<not> sublist close g'" using Cons.IH[OF Cons.prems(1) g'(2)] .
    ultimately show ?thesis using g'(1) by (simp add: sublist_Cons_right)
  qed
qed

lemma match_at_SomeD:
  "match_at opn close s = Some g \<Longrightarrow> lazy_until close (drop (length opn) s) = Some g"
  by (simp add: match_at_def split: if_splits)

lemma re_search_SomeD:
  "re_search opn close s = Some (i, g) \<Longrightarrow> \<exists>x. lazy_until close x = Some g"
proof (induction s arbitrary: i)
  case Nil
  then have "match_at opn close [] = Some g" by auto
  from match_at_SomeD[OF this] show ?case by blast
next
  case (Cons c cs)
  show ?case
  proof (cases "match_at opn close (c # cs)")
    case None
    with Cons.prems obtain j where "re_search opn close cs = Some (j, g)" by auto
    then show ?thesis by (rule Cons.IH)
  next
    case (Some g')
    with Cons.prems have "g' = g" by simp
    with Some match_at_SomeD show ?thesis by blast
  qed
qed

lemma fence_close_nonempty: "fence_close \<noteq> []"
  by (simp add: fence_close_def str_def)

text \<open>
  A text that holds a fence at all holds a first one: the opening marker does not occur
  before it, and its body ends at the first closing marker.
\<close>

lemma first_occurrence:
  "p \<noteq> [] \<Longrightarrow> sublist p s \<Longrightarrow>
   \<exists>u v. s = u @ p @ v \<and> \<not> sublist p u \<and> (\<forall>u' v'. s = u' @ p @ v' \<longrightarrow> length u \<le> length u')"
proof (induction s)
  case Nil
  then show ?case by simp
next
  case (Cons x s)
  show ?case
  proof (cases "prefix p (x # s)")
    case True
    then obtain v where "x # s = [] @ p @ v" by (auto simp: prefix_def)
    moreover have "\<not> sublist p []" using Cons.prems(1) by simp
    ultimately show ?thesis by (metis length_0_conv le0 list.size(3))
  next
    case False
    with Cons.prems have "sublist p s" by (simp add: sublist_Cons_right)
    from Cons.IH[OF Cons.prems(1) this] obtain u v where
      uv: "s = u @ p @ v" "\<not> sublist p u"
      and least: "\<And>u' v'. s = u' @ p @ v' \<Longrightarrow> length u \<le> length u'" by blast
    have a: "x # s = (x # u) @ p @ v" using uv(1) by simp
    have "\<not> prefix p (x # u)"
    proof
      assume "prefix p (x # u)"
      then have "prefix p ((x # u) @ p @ v)" using prefix_prefix by blast
      with a False show False by simp
    qed
    with uv(2) have b: "\<not> sublist p (x # u)" by (simp add: sublist_Cons_right)
    have c: "length (x # u) \<le> length u'" if e: "x # s = u' @ p @ v'" for u' v'
    proof (cases u')
      case Nil
      with e have "prefix p (x # s)" by simp
      with False show ?thesis by simp
    next
      case (Cons y u'')
      with e have "s = u'' @ p @ v'" by simp
      from least[OF this] Cons show ?thesis by simp
    qed
    from a b c show ?thesis by blast
  qed
qed

lemma first_fence_exists:
  assumes "opn \<noteq> []" and "close \<noteq> []"
    and "\<exists>a b c. s = a @ opn @ b @ close @ c"
  shows "\<exists>a b c. s = a @ opn @ b @ close @ c \<and> \<not> sublist opn a \<and> \<not> sublist close b"
proof -
  from assms(3) obtain a b c where s: "s = a @ opn @ b @ close @ c" by blast
  then have "sublist opn s" by simp
  from first_occurrence[OF assms(1) this] obtain a0 r0 where
    a0: "s = a0 @ opn @ r0" "\<not> sublist opn a0"
    and least: "\<And>u' v'. s = u' @ opn @ v' \<Longrightarrow> length a0 \<le> length u'" by blast
  from least[OF s] have "length a0 \<le> length a" .
  with s a0(1) obtain w where w: "a = a0 @ w"
    by (metis append_eq_append_conv_if append_take_drop_id)
  from s a0(1) w have eq: "opn @ r0 = w @ opn @ b @ close @ c" by simp
  have "r0 = drop (length opn) (opn @ r0)" by simp
  also have "\<dots> = drop (length opn) (w @ opn @ b @ close @ c)" by (simp only: eq)
  also have "\<dots> = (drop (length opn) w @ drop (length opn - length w) opn @ b) @ close @ c"
    by simp
  finally have "sublist close r0" by (metis sublist_appendI)
  from first_occurrence[OF assms(2) this] obtain b0 c0 where
    "r0 = b0 @ close @ c0" "\<not> sublist close b0" by blast
  with a0 show ?thesis by blast
qed

lemma html_fence_decomposition:
  "\<exists>a b c. s = a @ html_open @ b @ fence_close @ c \<Longrightarrow>
   \<exists>a b c. s = a @ html_open @ b @ fence_close @ c \<and> \<not> sublist html_open a \<and>
     \<not> sublist fence_close b"
  by (rule first_fence_exists) (simp_all add: html_open_def fence_close_def str_def)

lemma generic_fence_decomposition:
  "\<exists>a b c. s = a @ generic_open @ b @ fence_close @ c \<Longrightarrow>
   \<exists>a b c. s = a @ generic_open @ b @ fence_close @ c \<and> \<not> sublist generic_open a \<and>
     \<not> sublist fence_close b"
  by (rule first_fence_exists) (simp_all add: generic_open_def fence_close_def str_def)

section \<open>Properties of the extractor\<close>

lemmas lit_defs = str_def html_open_def generic_open_def fence_close_def
lemmas strip_defs = strip_def lstrip_def rstrip_def isspace_def



text \<open>
  C6, as the source has it. When the reply holds no fence tagged \<open>html\<close>, the second
  pattern looks for the marker \<open>```\<close> directly followed by a newline, and the same rule
  applies at the first such marker that a closing marker follows: the explanation is the
  text before it, stripped, and the code is the text up to the next closing marker,
  stripped. The marker found is the opening of an untagged block unless an earlier
  \<open>```\<close> at the end of a line, such as the closing marker of a tagged block, comes first.
  By \<open>generic_fence_decomposition\<close> every reply that the second pattern matches has this
  form.
\<close>

theorem extract_generic_fence:
  assumes "\<not> (\<exists>a' b' c'. response = a' @ html_open @ b' @ fence_close @ c')"
    and "response = a @ generic_open @ b @ fence_close @ c"
    and "\<not> sublist generic_open a" and "\<not> sublist fence_close b"
  shows "extract_code_from_response response = (strip a, strip b)"
proof -
  have "re_search html_open fence_close response = None"
    using assms(1) by (simp add: re_search_None_iff)
  moreover have "re_search generic_open fence_close response = Some (length a, b)"
    using re_search_fence[of generic_open a b c] assms(2-4) by simp
  ultimately show ?thesis using assms(2)
    by (simp add: extract_code_from_response_def)
qed

text \<open>
  The example of C6, obtained from the theorem: for \<open>```\n<p>x</p>\n```\<close> the explanation is
  empty and the code is \<open><p>x</p>\<close>.
\<close>

theorem extract_generic_fence_witness:
  "\<not> (\<exists>a' b' c'. str ''```\<newline><p>x</p>\<newline>```'' = a' @ html_open @ b' @ fence_close @ c') \<and>
   str ''```\<newline><p>x</p>\<newline>```'' = [] @ generic_open @ str ''<p>x</p>'' @ fence_close @ [] \<and>
   \<not> sublist generic_open [] \<and>
   \<not> sublist fence_close (str ''<p>x</p>'') \<and>
   extract_code_from_response (str ''```\<newline><p>x</p>\<newline>```'') = ([], str ''<p>x</p>'')"
proof -
  have "re_search html_open fence_close (str ''```\<newline><p>x</p>\<newline>```'') = None"
    by (simp add: lit_defs match_at_def)
  then have h1: "\<not> (\<exists>a' b' c'. str ''```\<newline><p>x</p>\<newline>```'' = a' @ html_open @ b' @ fence_close @ c')"
    by (rule iffD1[OF re_search_None_iff])
  have h2: "str ''```\<newline><p>x</p>\<newline>```'' = [] @ generic_open @ str ''<p>x</p>'' @ fence_close @ []"
    by (simp add: lit_defs)
  have h3: "\<not> sublist generic_open []"
    by (simp add: lit_defs)
  have h4: "\<not> sublist fence_close (str ''<p>x</p>'')"
    by (simp add: lit_defs sublist_Cons_right)
  have s1: "strip [] = []" by (simp add: strip_defs)
  have s2: "strip (str ''<p>x</p>'') = str ''<p>x</p>''"
    by (simp add: strip_defs str_def)
  from extract_generic_fence[OF h1 h2 h3 h4]
  have "extract_code_from_response (str ''```\<newline><p>x</p>\<newline>```'') = ([], str ''<p>x</p>'')"
    by (simp only: s1 s2)
  with h1 h2 h3 h4 show ?thesis by blast
qed

text \<open>
  C6 as the specification words it speaks of the first untagged fence. The reply
  \<open>```css\np{}\n```\nSee:\n```\n<p>x</p>\n```\<close> holds no fence tagged \<open>html\<close> and one untagged
  block, with body \<open><p>x</p>\<close>; the pattern starts at the closing marker of the \<open>css\<close> block,
  and the code returned is \<open>See:\<close>, the text between the two blocks.
\<close>

theorem untagged_after_tagged_counterexample:
  "re_search html_open fence_close
     (str ''```css\<newline>p{}\<newline>```\<newline>See:\<newline>```\<newline><p>x</p>\<newline>```'') = None \<and>
   str ''```css\<newline>p{}\<newline>```\<newline>See:\<newline>```\<newline><p>x</p>\<newline>```'' =
     str ''```css\<newline>p{}\<newline>```\<newline>See:\<newline>'' @ generic_open @ str ''<p>x</p>'' @ fence_close \<and>
   extract_code_from_response
     (str ''```css\<newline>p{}\<newline>```\<newline>See:\<newline>```\<newline><p>x</p>\<newline>```'') =
     (str ''```css\<newline>p{}'', str ''See:'') \<and>
   snd (extract_code_from_response
     (str ''```css\<newline>p{}\<newline>```\<newline>See:\<newline>```\<newline><p>x</p>\<newline>```'')) \<noteq>
     strip (str ''<p>x</p>'')"
  by (simp add: extract_code_from_response_def lit_defs match_at_def strip_defs)

text \<open>
  C7, as the source has it. A reply with neither a fence tagged \<open>html\<close> nor an untagged
  fence is returned whole and unchanged as the explanation, surrounding whitespace
  included, and the code is empty: the last \<open>return\<close> of the function does not call
  \<open>strip\<close>.
\<close>

theorem extract_no_fence:
  assumes "\<not> (\<exists>a b c. response = a @ html_open @ b @ fence_close @ c)"
    and "\<not> (\<exists>a b c. response = a @ generic_open @ b @ fence_close @ c)"
  shows "extract_code_from_response response = (response, [])"
proof -
  have "re_search html_open fence_close response = None"
    using assms(1) by (simp add: re_search_None_iff)
  moreover have "re_search generic_open fence_close response = None"
    using assms(2) by (simp add: re_search_None_iff)
  ultimately show ?thesis by (simp add: extract_code_from_response_def)
qed

text \<open>The theorem at a reply without any fence that ends with a space.\<close>

theorem extract_no_fence_witness:
  "\<not> (\<exists>a b c. str ''Sorry, no page. '' = a @ html_open @ b @ fence_close @ c) \<and>
   \<not> (\<exists>a b c. str ''Sorry, no page. '' = a @ generic_open @ b @ fence_close @ c) \<and>
   extract_code_from_response (str ''Sorry, no page. '') = (str ''Sorry, no page. '', [])"
proof -
  have "re_search html_open fence_close (str ''Sorry, no page. '') = None"
    by (simp add: lit_defs match_at_def)
  then have h1: "\<not> (\<exists>a b c. str ''Sorry, no page. '' = a @ html_open @ b @ fence_close @ c)"
    by (rule iffD1[OF re_search_None_iff])
  have "re_search generic_open fence_close (str ''Sorry, no page. '') = None"
    by (simp add: lit_defs match_at_def)
  then have h2: "\<not> (\<exists>a b c. str ''Sorry, no page. '' = a @ generic_open @ b @ fence_close @ c)"
    by (rule iffD1[OF re_search_None_iff])
  from extract_no_fence[OF h1 h2] h1 h2 show ?thesis by blast
qed

text \<open>
  C7 as the specification words it asks for the trimmed input. The reply \<open>" hi "\<close> holds
  no backtick, neither pattern matches it, its trimmed form is \<open>"hi"\<close>, and the explanation
  returned is \<open>" hi "\<close> itself.
\<close>

theorem no_fence_trimmed_counterexample:
  "backtick \<notin> set (str '' hi '') \<and>
   re_search html_open fence_close (str '' hi '') = None \<and>
   re_search generic_open fence_close (str '' hi '') = None \<and>
   strip (str '' hi '') = str ''hi'' \<and>
   extract_code_from_response (str '' hi '') = (str '' hi '', []) \<and>
   fst (extract_code_from_response (str '' hi '')) \<noteq> strip (str '' hi '')"
  by (simp add: extract_code_from_response_def lit_defs match_at_def strip_defs)

text \<open>
  C8. When the code \<open>c\<close> of a reply comes from a fence tagged \<open>html\<close>, extracting again from
  \<open>c\<close> wrapped in such a fence, \<open>```html\n\<close> before it and \<open>\n```\<close> after it, gives the code
  \<open>c\<close> again.
\<close>

theorem extraction_idempotent:
  assumes "\<exists>a b c. response = a @ html_open @ b @ fence_close @ c"
  shows "snd (extract_code_from_response
           (html_open @ snd (extract_code_from_response response) @ fence_close)) =
         snd (extract_code_from_response response)"
proof -
  from assms have "re_search html_open fence_close response \<noteq> None"
    by (simp add: re_search_None_iff)
  then obtain i g where ig: "re_search html_open fence_close response = Some (i, g)"
    by auto
  then have c: "snd (extract_code_from_response response) = strip g"
    by (simp add: extract_code_from_response_def)
  from re_search_SomeD[OF ig] obtain x where "lazy_until fence_close x = Some g" by blast
  with fence_close_nonempty have "\<not> sublist fence_close g" by (rule lazy_until_shortest)
  moreover have "sublist (strip g) g" by (rule sublist_strip)
  ultimately have n: "\<not> sublist fence_close (strip g)"
    using sublist_chain by blast
  have "\<not> sublist html_open []" by (simp add: html_open_def str_def)
  from re_search_fence[OF _ this n, of "[]"]
  have "re_search html_open fence_close (html_open @ strip g @ fence_close) = Some (0, strip g)"
    by simp
  then have "snd (extract_code_from_response (html_open @ strip g @ fence_close)) = strip (strip g)"
    by (simp add: extract_code_from_response_def)
  then show ?thesis by (simp add: c strip_strip)
qed

text \<open>
  The theorem at a reply whose fence body has spaces around the markup: the code is
  \<open><b>x</b>\<close>, and so is the code of the re-wrapped \<open>```html\n<b>x</b>\n```\<close>.
\<close>

theorem extraction_idempotent_witness:
  "(\<exists>a b c. str ''Intro ```html\<newline> <b>x</b> \<newline>``` bye'' = a @ html_open @ b @ fence_close @ c) \<and>
   snd (extract_code_from_response (str ''Intro ```html\<newline> <b>x</b> \<newline>``` bye'')) = str ''<b>x</b>'' \<and>
   snd (extract_code_from_response (str ''```html\<newline><b>x</b>\<newline>```'')) = str ''<b>x</b>''"
proof -
  have "str ''Intro ```html\<newline> <b>x</b> \<newline>``` bye'' =
        str ''Intro '' @ html_open @ str '' <b>x</b> '' @ fence_close @ str '' bye''"
    by (simp add: lit_defs)
  then have h: "\<exists>a b c. str ''Intro ```html\<newline> <b>x</b> \<newline>``` bye'' = a @ html_open @ b @ fence_close @ c"
    by blast
  have v: "snd (extract_code_from_response (str ''Intro ```html\<newline> <b>x</b> \<newline>``` bye'')) = str ''<b>x</b>''"
    by (simp add: extract_code_from_response_def lit_defs match_at_def strip_defs)
  have w: "html_open @ str ''<b>x</b>'' @ fence_close = str ''```html\<newline><b>x</b>\<newline>```''"
    by (simp add: lit_defs)
  from extraction_idempotent[OF h]
  have "snd (extract_code_from_response (str ''```html\<newline><b>x</b>\<newline>```'')) = str ''<b>x</b>''"
    by (simp only: v w)
  with h v show ?thesis by blast
qed

section \<open>A fence with another tag\<close>









section \<open>Properties of the orchestration\<close>

lemma py_bool_Some: "py_bool (Some k) = (k \<noteq> [])"
  by (simp add: py_bool_def)

lemma api_key_add_message: "api_key (add_message now r c self) = api_key self"
  by (simp add: add_message_def)

lemma slice_last_10: "slice_last 10 xs = drop (length xs - min (length xs) 10) xs"
  by (simp add: slice_last_def min_def)

text \<open>
  C1. With a credential configured (\<open>api_key\<close> is a non-empty string) and a completion call
  that returns the reply text, \<open>generate_website\<close> appends exactly two messages, the user
  request and then the raw reply as an assistant message, stores the extracted code in
  \<open>generated_code\<close> (empty or not), and returns the extracted code and explanation with an
  empty error.
\<close>

theorem generate_website_success:
  assumes "api_key self = Some k" and "k \<noteq> []"
    and "call (Some k) (outbound_messages (add_message t_user (str ''user'') user_request self)) =
         Inr reply"
  shows "generate_website call t_user t_reply self user_request =
    (\<lparr>code = snd (extract_code_from_response reply),
      explanation = fst (extract_code_from_response reply),
      error = []\<rparr>,
     self\<lparr>conversation_history :=
            conversation_history self @
            [\<lparr>role = str ''user'', content = user_request, timestamp = t_user\<rparr>,
             \<lparr>role = str ''assistant'', content = reply, timestamp = t_reply\<rparr>],
          generated_code := snd (extract_code_from_response reply)\<rparr>)"
  using assms
  by (simp add: generate_website_def py_bool_Some api_key_add_message Let_def
      add_message_def split: prod.splits)

text \<open>The theorem at a reply with a fence tagged \<open>html\<close>, on an empty history.\<close>

theorem generate_website_success_witness:
  "api_key agent0 = Some (str ''sk-test'') \<and> str ''sk-test'' \<noteq> [] \<and>
   (\<lambda>k ms. Inr (str ''Hi\<newline>```html\<newline><p>hi</p>\<newline>```''))
     (Some (str ''sk-test''))
     (outbound_messages (add_message 1 (str ''user'') (str ''a page'') agent0)) =
     Inr (str ''Hi\<newline>```html\<newline><p>hi</p>\<newline>```'') \<and>
   generate_website (\<lambda>k ms. Inr (str ''Hi\<newline>```html\<newline><p>hi</p>\<newline>```'')) 1 2 agent0
     (str ''a page'') =
    (\<lparr>code = str ''<p>hi</p>'', explanation = str ''Hi'', error = []\<rparr>,
     agent0\<lparr>conversation_history :=
            [\<lparr>role = str ''user'', content = str ''a page'', timestamp = 1\<rparr>,
             \<lparr>role = str ''assistant'',
              content = str ''Hi\<newline>```html\<newline><p>hi</p>\<newline>```'', timestamp = 2\<rparr>],
          generated_code := str ''<p>hi</p>''\<rparr>)"
proof -
  have h1: "api_key agent0 = Some (str ''sk-test'')" by (simp add: agent0_def)
  have h2: "str ''sk-test'' \<noteq> []" by (simp add: str_def)
  have h3: "(\<lambda>k ms. Inr (str ''Hi\<newline>```html\<newline><p>hi</p>\<newline>```''))
     (Some (str ''sk-test''))
     (outbound_messages (add_message 1 (str ''user'') (str ''a page'') agent0)) =
     (Inr (str ''Hi\<newline>```html\<newline><p>hi</p>\<newline>```'') :: pystr + pystr)" by simp
  have e: "extract_code_from_response (str ''Hi\<newline>```html\<newline><p>hi</p>\<newline>```'') =
     (str ''Hi'', str ''<p>hi</p>'')"
    by (simp add: extract_code_from_response_def lit_defs match_at_def strip_defs)
  have c: "conversation_history agent0 = []" by (simp add: agent0_def)
  from generate_website_success[where self = agent0 and k = "str ''sk-test''" and t_user = 1
      and t_reply = 2 and user_request = "str ''a page''"
      and call = "\<lambda>k ms. Inr (str ''Hi\<newline>```html\<newline><p>hi</p>\<newline>```'')"
      and reply = "str ''Hi\<newline>```html\<newline><p>hi</p>\<newline>```''", OF h1 h2 h3]
  have "generate_website (\<lambda>k ms. Inr (str ''Hi\<newline>```html\<newline><p>hi</p>\<newline>```'')) 1 2 agent0
     (str ''a page'') =
    (\<lparr>code = str ''<p>hi</p>'', explanation = str ''Hi'', error = []\<rparr>,
     agent0\<lparr>conversation_history :=
            [\<lparr>role = str ''user'', content = str ''a page'', timestamp = 1\<rparr>,
             \<lparr>role = str ''assistant'',
              content = str ''Hi\<newline>```html\<newline><p>hi</p>\<newline>```'', timestamp = 2\<rparr>],
          generated_code := str ''<p>hi</p>''\<rparr>)"
    by (simp only: e c fst_conv snd_conv append_Nil)
  with h1 h2 h3 show ?thesis by blast
qed

text \<open>
  C3. Without a credential (\<open>api_key\<close> is \<open>None\<close> or the empty string, the two values that
  \<open>not self.api_key\<close> accepts) \<open>generate_website\<close> returns empty code and explanation and a
  non-empty error, and the agent is unchanged: nothing is appended to the history.
\<close>

theorem generate_website_no_credential:
  assumes "api_key self = None \<or> api_key self = Some []"
  shows "snd (generate_website call t_user t_reply self user_request) = self \<and>
         code (fst (generate_website call t_user t_reply self user_request)) = [] \<and>
         explanation (fst (generate_website call t_user t_reply self user_request)) = [] \<and>
         error (fst (generate_website call t_user t_reply self user_request)) =
           str ''API key not set. Please set your OpenAI API key.'' \<and>
         error (fst (generate_website call t_user t_reply self user_request)) \<noteq> []"
proof -
  from assms have "\<not> py_bool (api_key self)" by (auto simp: py_bool_def)
  then have "generate_website call t_user t_reply self user_request =
      (\<lparr>code = [], explanation = [],
        error = str ''API key not set. Please set your OpenAI API key.''\<rparr>, self)"
    by (simp add: generate_website_def)
  then show ?thesis by (simp add: str_def)
qed

text \<open>The theorem at a state whose credential is the empty string.\<close>

theorem generate_website_no_credential_witness:
  "(api_key (agent0\<lparr>api_key := Some []\<rparr>) = None \<or>
    api_key (agent0\<lparr>api_key := Some []\<rparr>) = Some []) \<and>
   snd (generate_website (\<lambda>k ms. Inr (str ''ok'')) 1 2 (agent0\<lparr>api_key := Some []\<rparr>)
          (str ''a page'')) = agent0\<lparr>api_key := Some []\<rparr> \<and>
   code (fst (generate_website (\<lambda>k ms. Inr (str ''ok'')) 1 2 (agent0\<lparr>api_key := Some []\<rparr>)
          (str ''a page''))) = [] \<and>
   explanation (fst (generate_website (\<lambda>k ms. Inr (str ''ok'')) 1 2
          (agent0\<lparr>api_key := Some []\<rparr>) (str ''a page''))) = [] \<and>
   error (fst (generate_website (\<lambda>k ms. Inr (str ''ok'')) 1 2 (agent0\<lparr>api_key := Some []\<rparr>)
          (str ''a page''))) \<noteq> []"
proof -
  have h: "api_key (agent0\<lparr>api_key := Some []\<rparr>) = None \<or>
    api_key (agent0\<lparr>api_key := Some []\<rparr>) = Some []" by simp
  from generate_website_no_credential[OF h, of "\<lambda>k ms. Inr (str ''ok'')" 1 2 "str ''a page''"] h
  show ?thesis by blast
qed

text \<open>
  C4. With a credential configured and a completion call that fails, \<open>generate_website\<close>
  returns empty code and explanation and the error \<open>Error generating website: \<close> followed
  by the text of the failure; the history has grown by the user message alone, and
  everything else in the agent is as before.
\<close>

theorem generate_website_failure:
  assumes "api_key self = Some k" and "k \<noteq> []"
    and "call (Some k) (outbound_messages (add_message t_user (str ''user'') user_request self)) =
         Inl e"
  shows "generate_website call t_user t_reply self user_request =
    (\<lparr>code = [], explanation = [], error = str ''Error generating website: '' @ e\<rparr>,
     self\<lparr>conversation_history :=
            conversation_history self @
            [\<lparr>role = str ''user'', content = user_request, timestamp = t_user\<rparr>]\<rparr>) \<and>
    error (fst (generate_website call t_user t_reply self user_request)) \<noteq> [] \<and>
    length (conversation_history (snd (generate_website call t_user t_reply self user_request))) =
      length (conversation_history self) + 1"
proof -
  have "generate_website call t_user t_reply self user_request =
    (\<lparr>code = [], explanation = [], error = str ''Error generating website: '' @ e\<rparr>,
     self\<lparr>conversation_history :=
            conversation_history self @
            [\<lparr>role = str ''user'', content = user_request, timestamp = t_user\<rparr>]\<rparr>)"
    using assms
    by (simp add: generate_website_def py_bool_Some api_key_add_message Let_def add_message_def)
  then show ?thesis by (simp add: str_def)
qed

text \<open>The theorem at a call that fails with the text \<open>timeout\<close>, on an empty history.\<close>

theorem generate_website_failure_witness:
  "api_key agent0 = Some (str ''sk-test'') \<and> str ''sk-test'' \<noteq> [] \<and>
   (\<lambda>k ms. Inl (str ''timeout'')) (Some (str ''sk-test''))
     (outbound_messages (add_message 1 (str ''user'') (str ''a page'') agent0)) =
     (Inl (str ''timeout'') :: pystr + pystr) \<and>
   generate_website (\<lambda>k ms. Inl (str ''timeout'')) 1 2 agent0 (str ''a page'') =
    (\<lparr>code = [], explanation = [], error = str ''Error generating website: timeout''\<rparr>,
     agent0\<lparr>conversation_history :=
            [\<lparr>role = str ''user'', content = str ''a page'', timestamp = 1\<rparr>]\<rparr>)"
proof -
  have h1: "api_key agent0 = Some (str ''sk-test'')" by (simp add: agent0_def)
  have h2: "str ''sk-test'' \<noteq> []" by (simp add: str_def)
  have h3: "(\<lambda>k ms. Inl (str ''timeout'')) (Some (str ''sk-test''))
     (outbound_messages (add_message 1 (str ''user'') (str ''a page'') agent0)) =
     (Inl (str ''timeout'') :: pystr + pystr)" by simp
  have c: "conversation_history agent0 = []" by (simp add: agent0_def)
  have m: "str ''Error generating website: '' @ str ''timeout'' = str ''Error generating website: timeout''"
    by (simp add: str_def)
  from generate_website_failure[where self = agent0 and k = "str ''sk-test''" and t_user = 1
      and t_reply = 2 and user_request = "str ''a page''"
      and call = "\<lambda>k ms. Inl (str ''timeout'')" and e = "str ''timeout''", OF h1 h2 h3]
  have "generate_website (\<lambda>k ms. Inl (str ''timeout'')) 1 2 agent0 (str ''a page'') =
    (\<lparr>code = [], explanation = [], error = str ''Error generating website: timeout''\<rparr>,
     agent0\<lparr>conversation_history :=
            [\<lparr>role = str ''user'', content = str ''a page'', timestamp = 1\<rparr>]\<rparr>)"
    by (simp only: c m append_Nil)
  with h1 h2 h3 show ?thesis by blast
qed

text \<open>
  C5. With a credential configured, \<open>generate_website\<close> hands the completion call exactly
  this list: the system message followed by the last \<open>min N 10\<close> messages of the history,
  in their order, where \<open>N\<close> counts the history with the user message just appended. The
  outcome of \<open>generate_website\<close> is decided by the answer of the call on that list and on no
  other. The list has \<open>1 + min N 10\<close> elements and the current user request is its last.
\<close>

theorem outbound_window_sent:
  assumes "api_key self = Some k" and "k \<noteq> []"
  shows
  "(let hist = conversation_history self @
               [\<lparr>role = str ''user'', content = user_request, timestamp = t_user\<rparr>];
        out = (str ''system'', system_prompt self) #
              map (\<lambda>msg. (role msg, content msg))
                (drop (length hist - min (length hist) 10) hist)
    in generate_website call t_user t_reply self user_request =
         (case call (Some k) out of
            Inr reply \<Rightarrow>
              (\<lparr>code = snd (extract_code_from_response reply),
                explanation = fst (extract_code_from_response reply), error = []\<rparr>,
               self\<lparr>conversation_history :=
                      hist @ [\<lparr>role = str ''assistant'', content = reply, timestamp = t_reply\<rparr>],
                    generated_code := snd (extract_code_from_response reply)\<rparr>)
          | Inl e \<Rightarrow>
              (\<lparr>code = [], explanation = [], error = str ''Error generating website: '' @ e\<rparr>,
               self\<lparr>conversation_history := hist\<rparr>)) \<and>
       length out = 1 + min (length hist) 10 \<and>
       last out = (str ''user'', user_request))"
proof -
  define hist where "hist = conversation_history self @
               [\<lparr>role = str ''user'', content = user_request, timestamp = t_user\<rparr>]"
  define out where "out = (str ''system'', system_prompt self) #
              map (\<lambda>msg. (role msg, content msg))
                (drop (length hist - min (length hist) 10) hist)"
  have o: "outbound_messages (add_message t_user (str ''user'') user_request self) = out"
    by (simp add: out_def hist_def outbound_messages_def add_message_def slice_last_10)
  have g: "generate_website call t_user t_reply self user_request =
         (case call (Some k) out of
            Inr reply \<Rightarrow>
              (\<lparr>code = snd (extract_code_from_response reply),
                explanation = fst (extract_code_from_response reply), error = []\<rparr>,
               self\<lparr>conversation_history :=
                      hist @ [\<lparr>role = str ''assistant'', content = reply, timestamp = t_reply\<rparr>],
                    generated_code := snd (extract_code_from_response reply)\<rparr>)
          | Inl e \<Rightarrow>
              (\<lparr>code = [], explanation = [], error = str ''Error generating website: '' @ e\<rparr>,
               self\<lparr>conversation_history := hist\<rparr>))"
    using assms
    by (simp add: generate_website_def py_bool_Some api_key_add_message Let_def o)
       (simp add: add_message_def hist_def split: sum.splits prod.splits)
  have l: "length out = 1 + min (length hist) 10"
    by (simp add: out_def)
  have "drop (length hist - min (length hist) 10) hist \<noteq> []"
    by (simp add: hist_def)
  then have "last out = (\<lambda>msg. (role msg, content msg)) (last hist)"
    by (simp add: out_def last_map)
  then have la: "last out = (str ''user'', user_request)"
    by (simp add: hist_def)
  from g l la show ?thesis
    unfolding hist_def out_def Let_def by blast
qed

text \<open>
  The theorem on a history of ten earlier messages: the call receives the system message,
  messages 1 to 9 and the current request, and not message 0.
\<close>

theorem outbound_window_sent_witness:
  "api_key agent10 = Some (str ''sk-test'') \<and> str ''sk-test'' \<noteq> [] \<and>
   generate_website echo_call 10 11 agent10 (str ''more'') =
     (\<lparr>code = [], explanation = [], error = str ''Error generating website: ok''\<rparr>,
      agent10\<lparr>conversation_history :=
         map old_message [0..<10] @
         [\<lparr>role = str ''user'', content = str ''more'', timestamp = 10\<rparr>]\<rparr>)"
proof -
  have h1: "api_key agent10 = Some (str ''sk-test'')" by (simp add: agent10_def agent0_def)
  have h2: "str ''sk-test'' \<noteq> []" by (simp add: str_def)
  have c: "conversation_history agent10 = map old_message [0..<10]" by (simp add: agent10_def)
  have u: "[0..<10] = [0,1,2,3,4,5,6,7,8,9::nat]" by (simp add: upt_rec)
  have m: "str ''Error generating website: '' @ str ''ok'' = str ''Error generating website: ok''"
    by (simp add: str_def)
  from outbound_window_sent[where self = agent10 and k = "str ''sk-test''" and call = echo_call
      and t_user = 10 and t_reply = 11 and user_request = "str ''more''", OF h1 h2]
  have "generate_website echo_call 10 11 agent10 (str ''more'') =
     (\<lparr>code = [], explanation = [], error = str ''Error generating website: ok''\<rparr>,
      agent10\<lparr>conversation_history :=
         map old_message [0..<10] @
         [\<lparr>role = str ''user'', content = str ''more'', timestamp = 10\<rparr>]\<rparr>)"
    by (simp add: Let_def c u echo_call_def old_message_def m)
  with h1 h2 show ?thesis by blast
qed

text \<open>
  C9. \<open>clear_history\<close> is total: it has no failing branch. Afterwards the history is empty,
  so the slice \<open>[-k:]\<close> of it is empty for every \<open>k\<close>, and \<open>generated_code\<close> is the empty
  string; the credential and the system prompt are kept.
\<close>

theorem clear_history_empties:
  "conversation_history (clear_history self) = [] \<and>
   generated_code (clear_history self) = [] \<and>
   (\<forall>k. slice_last k (conversation_history (clear_history self)) = []) \<and>
   api_key (clear_history self) = api_key self \<and>
   system_prompt (clear_history self) = system_prompt self"
  by (simp add: clear_history_def slice_last_def)

end
